theory Spec2Isabelle
  imports Main
begin

section \<open>Debug model elements shown in the Variables view\<close>

text \<open>
  The tree of the Variables view holds values of the TypeScript union
  \<^verbatim>\<open>IExpression | IScope\<close>; its input is an \<^verbatim>\<open>IStackFrame\<close> or \<^verbatim>\<open>null\<close>.
  The view tells the elements apart with \<^verbatim>\<open>instanceof\<close>, so every element carries the
  class that constructed it. \<^verbatim>\<open>ErrorScope\<close> is declared as a subclass of \<^verbatim>\<open>Scope\<close>
  (debugModel), which is what makes the order of the tests in \<^verbatim>\<open>getTemplateId\<close> matter.
  \<open>el_ref\<close> is the identity of the JavaScript object: two objects with the same id and
  contents are still two objects.
\<close>

datatype element_class =
  ErrorScopeClass | ScopeClass | VariableClass | VisualizedExpressionClass | ExpressionClass

datatype element =
  Element (el_class: element_class) (el_ref: nat) (el_id: string) (el_hasChildren: bool)
    (el_expensive: bool) (el_children: "element list")

record stack_frame =
  frame_id :: string
  frame_scopes :: "element list"

datatype tree_element = StackFrameEl stack_frame | ElementEl element

text \<open>\<^verbatim>\<open>x instanceof C\<close>: the class of \<open>x\<close> is \<open>C\<close> or a subclass of it.\<close>

definition instanceOf :: "element \<Rightarrow> element_class \<Rightarrow> bool" where
  "instanceOf e c = (el_class e = c \<or> (el_class e = ErrorScopeClass \<and> c = ScopeClass))"

fun isStackFrame :: "tree_element \<Rightarrow> bool" where
  "isStackFrame (StackFrameEl sf) = True"
| "isStackFrame (ElementEl e) = False"

section \<open>VariablesDataSource\<close>

text \<open>
  \<^verbatim>\<open>hasChildren\<close> answers from the element alone. \<^verbatim>\<open>doGetChildren\<close> makes one call on
  the debug model, \<^verbatim>\<open>getScopes()\<close> on a stack frame and \<^verbatim>\<open>getChildren()\<close> on anything
  else, and hands back what that call resolves to; the call is returned next to the
  result so that what was requested from the model can be stated.
\<close>

fun hasChildren :: "tree_element option \<Rightarrow> bool" where
  "hasChildren None = False"
| "hasChildren (Some (StackFrameEl sf)) = True"
| "hasChildren (Some (ElementEl e)) = el_hasChildren e"

datatype model_call = GetScopes string | GetChildren nat

fun doGetChildren :: "tree_element \<Rightarrow> model_call \<times> element list" where
  "doGetChildren (StackFrameEl sf) = (GetScopes (frame_id sf), frame_scopes sf)"
| "doGetChildren (ElementEl e) = (GetChildren (el_ref e), el_children e)"

section \<open>VariablesDelegate\<close>

definition ScopesRenderer_ID :: string where
  "ScopesRenderer_ID = ''scope''"

definition ScopeErrorRenderer_ID :: string where
  "ScopeErrorRenderer_ID = ''scopeError''"

definition VisualizedVariableRenderer_ID :: string where
  "VisualizedVariableRenderer_ID = ''viz''"

definition VariablesRenderer_ID :: string where
  "VariablesRenderer_ID = ''variable''"

definition getTemplateId :: "element \<Rightarrow> string" where
  "getTemplateId element =
     (if instanceOf element ErrorScopeClass then ScopeErrorRenderer_ID
      else if instanceOf element ScopeClass then ScopesRenderer_ID
      else if instanceOf element VisualizedExpressionClass then VisualizedVariableRenderer_ID
      else VariablesRenderer_ID)"

section \<open>The tree widget\<close>

text \<open>
  The tree widget (\<^verbatim>\<open>WorkbenchAsyncDataTree\<close>, under \<^verbatim>\<open>vs/base/browser/ui/tree\<close> and
  \<^verbatim>\<open>vs/platform/list\<close>) is not part of the file verified here. The spec treats it as an
  external collaborator behind a narrow interface, fed by a data source that fetches
  children on demand and carrying the expand/collapse state in a view state. The records
  below keep what the view reads back from the tree: its input, its view state, the
  nodes it holds, its options, and the rows it was asked to redraw, and next to them the
  requests the tree has made of the data source, each the node handed to
  \<^verbatim>\<open>doGetChildren\<close>. The user may change the view state between two events by
  expanding and collapsing nodes by hand.
\<close>

record view_state =
  vs_expanded :: "string list"
  vs_focus :: "string list"
  vs_selection :: "string list"
  vs_scrollTop :: nat

record tree_options =
  opt_horizontalScrolling :: "bool option"
  opt_others :: "(string \<times> string) list"

record tree =
  t_input :: "stack_frame option"
  t_viewState :: view_state
  t_nodes :: "element list"
  t_options :: tree_options
  t_rerendered :: "element list"
  t_requests :: "tree_element list"

definition empty_view_state :: view_state where
  "empty_view_state =
     \<lparr>vs_expanded = [], vs_focus = [], vs_selection = [], vs_scrollTop = 0\<rparr>"

text \<open>
  Modelled from the spec: \<^verbatim>\<open>tree.getInput()\<close> of the tree widget, missing from the
  sources; it returns the input last set.
\<close>

definition getInput :: "tree \<Rightarrow> stack_frame option" where
  "getInput t = t_input t"

text \<open>
  Modelled from the spec: \<^verbatim>\<open>tree.getViewState()\<close> of the tree widget, missing from the
  sources; it returns the expand/collapse state the tree is in.
\<close>

definition getViewState :: "tree \<Rightarrow> view_state" where
  "getViewState t = t_viewState t"

text \<open>
  Modelled from the spec: \<^verbatim>\<open>tree.hasNode(element)\<close> of the tree widget, missing from
  the sources; a node is looked up by the identity of its object.
\<close>

definition hasNode :: "element \<Rightarrow> tree \<Rightarrow> bool" where
  "hasNode e t = (e \<in> set (t_nodes t))"

text \<open>
  Modelled from the spec: how the tree widget, missing from the sources, brings back the
  expand/collapse state of a view state. Below a node it opens again the nodes that the
  view state lists as expanded and that the data source says have children, and looks
  no further below a node that stays collapsed. The result lists the nodes opened, in
  the order in which their children are fetched.
\<close>

fun restored :: "string list \<Rightarrow> element \<Rightarrow> element list" where
  "restored expanded (Element c r i h x ch) =
     (if i \<in> set expanded \<and> hasChildren (Some (ElementEl (Element c r i h x ch)))
      then Element c r i h x ch # concat (map (restored expanded) ch)
      else [])"

text \<open>
  Modelled from the spec: \<^verbatim>\<open>tree.setInput(input, viewState)\<close> of the tree widget,
  missing from the sources. It replaces the input, adopts the view state it is given (an
  empty one when none is given), fetches the children of the new input from the data
  source and, on demand, the children of the nodes which that view state has expanded.
\<close>

definition setInput :: "stack_frame option \<Rightarrow> view_state option \<Rightarrow> tree \<Rightarrow> tree" where
  "setInput i viewState t =
     (let v = (case viewState of None \<Rightarrow> empty_view_state | Some v \<Rightarrow> v);
          scopes = (case i of None \<Rightarrow> [] | Some sf \<Rightarrow> snd (doGetChildren (StackFrameEl sf)));
          opened = concat (map (restored (vs_expanded v)) scopes)
      in t\<lparr>t_input := i,
           t_nodes := scopes @ concat (map (\<lambda>e. snd (doGetChildren (ElementEl e))) opened),
           t_viewState := v,
           t_requests := t_requests t
             @ (case i of None \<Rightarrow> [] | Some sf \<Rightarrow> [StackFrameEl sf])
             @ map ElementEl opened\<rparr>)"

text \<open>
  Modelled from the spec: \<^verbatim>\<open>tree.expand(element)\<close> of the tree widget, missing from the
  sources. It marks the node expanded in the view state and fetches the node's children
  from the data source.
\<close>

definition expand :: "element \<Rightarrow> tree \<Rightarrow> tree" where
  "expand e t =
     t\<lparr>t_viewState := (t_viewState t)\<lparr>vs_expanded :=
          (if el_id e \<in> set (vs_expanded (t_viewState t)) then vs_expanded (t_viewState t)
           else vs_expanded (t_viewState t) @ [el_id e])\<rparr>,
       t_nodes := t_nodes t @ snd (doGetChildren (ElementEl e)),
       t_requests := t_requests t @ [ElementEl e]\<rparr>"

text \<open>
  Modelled from the spec: \<^verbatim>\<open>tree.updateOptions({ horizontalScrolling: b })\<close> of the
  tree widget, missing from the sources. The view never passes another option; the
  option named in the argument is overwritten and the others are kept.
\<close>

definition updateOptions_horizontalScrolling :: "bool \<Rightarrow> tree \<Rightarrow> tree" where
  "updateOptions_horizontalScrolling b t =
     t\<lparr>t_options := (t_options t)\<lparr>opt_horizontalScrolling := Some b\<rparr>\<rparr>"

text \<open>
  Modelled from the spec: \<^verbatim>\<open>tree.rerender(element)\<close> of the tree widget, missing from
  the sources; it redraws one row.
\<close>

definition rerender :: "element \<Rightarrow> tree \<Rightarrow> tree" where
  "rerender e t = t\<lparr>t_rerendered := t_rerendered t @ [e]\<rparr>"

section \<open>The state of the view and of what it talks to\<close>

text \<open>
  One record holds the host's clock and timer queue (\<^verbatim>\<open>setTimeout\<close>,
  \<^verbatim>\<open>clearTimeout\<close>), the focused stack frame of the debug service's view model, the
  fields of the \<^verbatim>\<open>RunOnceScheduler\<close> held in \<^verbatim>\<open>updateTreeScheduler\<close>, and the fields of
  \<^verbatim>\<open>VariablesView\<close> itself: the four declared in the class, the variable
  \<^verbatim>\<open>horizontalScrolling\<close> that \<^verbatim>\<open>renderBody\<close> closes over, the visibility that
  \<^verbatim>\<open>isBodyVisible()\<close> reports and the disposables handed to \<^verbatim>\<open>this._register\<close>.
  \<open>refreshRuns\<close> is a history variable, absent from the code: the clock value of every run
  of the scheduled task.
\<close>

datatype disposable =
  VisualizationRangeListener | FocusStackFrameListener | WillUpdateViewsListener
  | TreeWidget | MouseDblClickListener | ContextMenuListener | BodyVisibilityListener
  | SelectExpressionListener | EvaluateLazyExpressionListener | EndSessionListener

record state =
  now :: nat
  timers :: "(nat \<times> nat) list"
  nextTimerId :: nat
  focusedStackFrame :: "stack_frame option"
  timeoutToken :: "nat option"
  needsRefresh :: bool
  tree :: tree
  savedViewState :: "string \<rightharpoonup> view_state"
  autoExpandedScopes :: "string set"
  horizontalScrolling :: "bool option"
  bodyVisible :: bool
  store :: "disposable list"
  refreshRuns :: "nat list"

record focus_event =
  fe_stackFrame :: "stack_frame option"
  fe_explicit :: bool

section \<open>The host's timers and RunOnceScheduler\<close>

text \<open>
  \<^verbatim>\<open>setTimeout\<close> and \<^verbatim>\<open>clearTimeout\<close> of the JavaScript host: a timer is a token and
  the time at which it is due.
\<close>

definition setTimeout :: "nat \<Rightarrow> state \<Rightarrow> nat \<times> state" where
  "setTimeout delay s =
     (nextTimerId s,
      s\<lparr>timers := timers s @ [(nextTimerId s, now s + delay)],
        nextTimerId := nextTimerId s + 1\<rparr>)"

definition clearTimeout :: "nat \<Rightarrow> state \<Rightarrow> state" where
  "clearTimeout tok s = s\<lparr>timers := filter (\<lambda>tm. fst tm \<noteq> tok) (timers s)\<rparr>"

text \<open>
  \<^verbatim>\<open>RunOnceScheduler\<close> (\<^verbatim>\<open>vs/base/common/async\<close>) is not part of the file verified
  here. The spec describes it as a single-shot delayed task that is rescheduled, not
  stacked, on each new request, with a zero-delay path and a longer default delay, and
  whose pending task is cancelled on disposal. The view constructs its scheduler with a
  delay of 400 (the second argument of the constructor call).
\<close>

definition updateTreeScheduler_timeout :: nat where
  "updateTreeScheduler_timeout = 400"

text \<open>
  Modelled from the spec: \<^verbatim>\<open>RunOnceScheduler.cancel()\<close>, missing from the sources. It
  clears the timer the scheduler holds, if it holds one.
\<close>

definition cancel :: "state \<Rightarrow> state" where
  "cancel s =
     (case timeoutToken s of None \<Rightarrow> s
      | Some tok \<Rightarrow> (clearTimeout tok s)\<lparr>timeoutToken := None\<rparr>)"

text \<open>
  Modelled from the spec: \<^verbatim>\<open>RunOnceScheduler.schedule(delay)\<close>, missing from the
  sources. The pending task is rescheduled, not stacked: the held timer is cancelled and
  a new one is set, after the delay given or, when none is given, after the default.
\<close>

definition schedule :: "nat option \<Rightarrow> state \<Rightarrow> state" where
  "schedule delay s =
     (let s1 = cancel s;
          d = (case delay of None \<Rightarrow> updateTreeScheduler_timeout | Some d \<Rightarrow> d);
          (tok, s2) = setTimeout d s1
      in s2\<lparr>timeoutToken := Some tok\<rparr>)"

text \<open>
  Modelled from the spec: \<^verbatim>\<open>RunOnceScheduler.dispose()\<close>, missing from the sources.
  Disposal cancels the pending task.
\<close>

definition scheduler_dispose :: "state \<Rightarrow> state" where
  "scheduler_dispose s = cancel s"

section \<open>VariablesView\<close>

text \<open>
  The task given to the scheduler in the constructor. It is an \<^verbatim>\<open>async\<close> function; the
  model runs it in one piece and takes as its first argument what
  \<^verbatim>\<open>await stackFrame.getScopes()\<close> resolves to at that point of the run. The tree has
  fetched the frame's scopes on its own during \<^verbatim>\<open>setInput\<close>, and the two answers differ
  when the scopes were forgotten and fetched again in between.
\<close>

definition updateTreeScheduler_runner :: "(stack_frame \<Rightarrow> element list) \<Rightarrow> state \<Rightarrow> state" where
  "updateTreeScheduler_runner getScopes s =
     (let stackFrame = focusedStackFrame s;
          s1 = s\<lparr>needsRefresh := False\<rparr>;
          s2 = (case getInput (tree s1) of None \<Rightarrow> s1
                | Some input \<Rightarrow>
                    s1\<lparr>savedViewState :=
                         (savedViewState s1)(frame_id input \<mapsto> getViewState (tree s1))\<rparr>)
      in case stackFrame of
           None \<Rightarrow> s2\<lparr>tree := setInput None None (tree s2)\<rparr>
         | Some sf \<Rightarrow>
             (let viewState = savedViewState s2 (frame_id sf);
                  s3 = s2\<lparr>tree := setInput (Some sf) viewState (tree s2)\<rparr>;
                  scopes = getScopes sf
              in case find (\<lambda>sc. \<not> el_expensive sc) scopes of
                   None \<Rightarrow> s3
                 | Some toExpand \<Rightarrow>
                     if hasNode toExpand (tree s3)
                     then s3\<lparr>autoExpandedScopes :=
                               insert (el_id toExpand) (autoExpandedScopes s3),
                             tree := expand toExpand (tree s3)\<rparr>
                     else s3))"

text \<open>The listeners registered in \<^verbatim>\<open>renderBody\<close>.\<close>

definition onDidFocusStackFrame :: "focus_event \<Rightarrow> state \<Rightarrow> state" where
  "onDidFocusStackFrame sf s =
     (if \<not> bodyVisible s then s\<lparr>needsRefresh := True\<rparr>
      else (let timeout = (if fe_explicit sf then Some 0 else None)
            in schedule timeout s))"

definition onDidChangeBodyVisibility :: "bool \<Rightarrow> state \<Rightarrow> state" where
  "onDidChangeBodyVisibility visible s =
     (if visible \<and> needsRefresh s then schedule None s else s)"

definition onDidSelectExpression :: "element option \<Rightarrow> state \<Rightarrow> state" where
  "onDidSelectExpression e s =
     (if e \<noteq> None \<and> hasNode (the e) (tree s) then
        (let s1 = s\<lparr>horizontalScrolling := opt_horizontalScrolling (t_options (tree s))\<rparr>;
             s2 = (if horizontalScrolling s1 = Some True
                   then s1\<lparr>tree := updateOptions_horizontalScrolling False (tree s1)\<rparr>
                   else s1)
         in s2\<lparr>tree := rerender (the e) (tree s2)\<rparr>)
      else if e = None \<and> horizontalScrolling s \<noteq> None then
        s\<lparr>tree := updateOptions_horizontalScrolling (the (horizontalScrolling s)) (tree s),
          horizontalScrolling := None\<rparr>
      else s)"

definition onDidEndSession :: "state \<Rightarrow> state" where
  "onDidEndSession s = s\<lparr>savedViewState := Map.empty, autoExpandedScopes := {}\<rparr>"

text \<open>
  What \<^verbatim>\<open>renderBody\<close> hands to \<^verbatim>\<open>this._register\<close>, in the order of the calls: the
  listeners and the tree. The scheduler is created in the constructor by a plain
  assignment and is not among them.
\<close>

definition registered :: "disposable list" where
  "registered =
     [VisualizationRangeListener, FocusStackFrameListener, WillUpdateViewsListener,
      TreeWidget, MouseDblClickListener, ContextMenuListener, BodyVisibilityListener,
      SelectExpressionListener, EvaluateLazyExpressionListener, EndSessionListener]"

text \<open>
  Modelled from the spec: \<^verbatim>\<open>dispose()\<close>, which \<^verbatim>\<open>VariablesView\<close> does not define and
  inherits from \<^verbatim>\<open>ViewPane\<close> and \<^verbatim>\<open>Disposable\<close>, both missing from the sources. It
  disposes what was registered, and so reaches the scheduler only if the view registered
  it.
\<close>

definition dispose :: "state \<Rightarrow> state" where
  "dispose s = s\<lparr>store := []\<rparr>"

text \<open>
  The state after the constructor and \<^verbatim>\<open>renderBody\<close>: nothing scheduled, the tree
  created with the given options and its input set to the focused frame or null.
\<close>

definition initial :: "stack_frame option \<Rightarrow> tree_options \<Rightarrow> bool \<Rightarrow> state" where
  "initial focused opts visible =
     \<lparr>now = 0, timers = [], nextTimerId = 0, focusedStackFrame = focused,
      timeoutToken = None, needsRefresh = False,
      tree = setInput focused None
        \<lparr>t_input = None, t_viewState = empty_view_state, t_nodes = [], t_options = opts,
         t_rerendered = [], t_requests = []\<rparr>,
      savedViewState = Map.empty, autoExpandedScopes = {}, horizontalScrolling = None,
      bodyVisible = visible, store = registered, refreshRuns = []\<rparr>"

section \<open>Events\<close>

text \<open>
  What can happen to the view, one event at a time. The view model stores the focused
  frame before it fires its focus event, and the pane updates its visibility before it
  fires its visibility event; a listener runs only while it is still in the store.
  \<open>Advance d\<close> lets \<open>d\<close> milliseconds pass and then has the host call back every timer
  that is due, in the order in which they were set.
\<close>

datatype event =
  FocusStackFrame focus_event
  | ChangeBodyVisibility bool
  | SelectExpression "element option"
  | EndSession
  | Advance nat
  | Dispose

text \<open>
  Modelled from the spec: the timer callback of \<^verbatim>\<open>RunOnceScheduler\<close>, missing from the
  sources. The task is single-shot: the token is forgotten and the task runs once. The
  run is entered in \<open>refreshRuns\<close>, and the scopes it awaits are the ones the frame has.
\<close>

definition onTimeout :: "state \<Rightarrow> state" where
  "onTimeout s =
     (let s1 = s\<lparr>timeoutToken := None\<rparr>
      in updateTreeScheduler_runner frame_scopes (s1\<lparr>refreshRuns := refreshRuns s1 @ [now s1]\<rparr>))"

fun fire :: "(nat \<times> nat) list \<Rightarrow> state \<Rightarrow> state" where
  "fire [] s = s"
| "fire (tm # tms) s =
     (if tm \<in> set (timers s)
      then fire tms (onTimeout (s\<lparr>timers := remove1 tm (timers s)\<rparr>))
      else fire tms s)"

definition advance :: "nat \<Rightarrow> state \<Rightarrow> state" where
  "advance d s =
     (let s1 = s\<lparr>now := now s + d\<rparr>
      in fire (filter (\<lambda>tm. snd tm \<le> now s1) (timers s1)) s1)"

fun step :: "event \<Rightarrow> state \<Rightarrow> state" where
  "step (FocusStackFrame sf) s =
     (let s1 = s\<lparr>focusedStackFrame := fe_stackFrame sf\<rparr>
      in if FocusStackFrameListener \<in> set (store s1) then onDidFocusStackFrame sf s1 else s1)"
| "step (ChangeBodyVisibility visible) s =
     (let s1 = s\<lparr>bodyVisible := visible\<rparr>
      in if BodyVisibilityListener \<in> set (store s1)
         then onDidChangeBodyVisibility visible s1 else s1)"
| "step (SelectExpression e) s =
     (if SelectExpressionListener \<in> set (store s) then onDidSelectExpression e s else s)"
| "step EndSession s =
     (if EndSessionListener \<in> set (store s) then onDidEndSession s else s)"
| "step (Advance d) s = advance d s"
| "step Dispose s = dispose s"

fun exec :: "event list \<Rightarrow> state \<Rightarrow> state" where
  "exec [] s = s"
| "exec (e # es) s = exec es (step e s)"

text \<open>
  A burst of focus events, each followed by a pause: the shape of input a debouncer is
  meant for.
\<close>

fun burst :: "(focus_event \<times> nat) list \<Rightarrow> event list" where
  "burst [] = []"
| "burst ((sf, d) # xs) = FocusStackFrame sf # Advance d # burst xs"

text \<open>How many times the clock is advanced in a list of events.\<close>

fun advances :: "event list \<Rightarrow> nat" where
  "advances [] = 0"
| "advances (Advance d # es) = Suc (advances es)"
| "advances (e # es) = advances es"

definition delay_of :: "focus_event \<Rightarrow> nat" where
  "delay_of sf = (if fe_explicit sf then 0 else updateTreeScheduler_timeout)"

text \<open>
  The timer queue holds nothing but the timer whose token the scheduler holds, and the
  host has not handed out a token it could hand out again.
\<close>

definition scheduler_inv :: "state \<Rightarrow> bool" where
  "scheduler_inv s =
     (list_all (\<lambda>tm. fst tm < nextTimerId s) (timers s)
      \<and> map fst (timers s) = (case timeoutToken s of None \<Rightarrow> [] | Some tok \<Rightarrow> [tok]))"

section \<open>Data breakpoint commands\<close>

text \<open>
  The module keeps the answer to the last \<^verbatim>\<open>dataBreakpointInfo\<close> request in a variable
  of its own, \<^verbatim>\<open>dataBreakpointInfoResponse\<close>, next to \<^verbatim>\<open>variableInternalContext\<close>.
  Opening the context menu of a variable writes them; the three commands read the first.
  \<open>se_dataBreakpointInfo\<close> is how \<^verbatim>\<open>await session.dataBreakpointInfo(...)\<close> ends for the
  variable at hand, with a response, with \<^verbatim>\<open>undefined\<close>, or with the promise rejected,
  in which case the \<^verbatim>\<open>await\<close> throws and the function is left at once; and \<open>dataBreakpoints\<close> is the list that the debug service's
  \<^verbatim>\<open>addDataBreakpoint\<close> appends to.
\<close>

datatype access_type = ReadAccess | WriteAccess | ReadWriteAccess

datatype request_error = RequestRejected

datatype data_breakpoint_set_type = VariableSetType | AddressSetType

record data_breakpoint_info_response =
  r_dataId :: "string option"
  r_description :: string
  r_accessTypes :: "access_type list option"
  r_canPersist :: "bool option"

record data_breakpoint =
  bp_description :: string
  bp_src_type :: data_breakpoint_set_type
  bp_src_dataId :: "string option"
  bp_canPersist :: bool
  bp_accessTypes :: "access_type list option"
  bp_accessType :: access_type

record session =
  se_supportsDataBreakpoints :: "bool option"
  se_dataBreakpointInfo :: "request_error + data_breakpoint_info_response option"

record module_state =
  variableInternalContext :: "element option"
  dataBreakpointInfoResponse :: "data_breakpoint_info_response option"
  dataBreakpoints :: "data_breakpoint list"

datatype context_key =
  CONTEXT_BREAK_WHEN_VALUE_CHANGES_SUPPORTED
  | CONTEXT_BREAK_WHEN_VALUE_IS_ACCESSED_SUPPORTED
  | CONTEXT_BREAK_WHEN_VALUE_IS_READ_SUPPORTED

text \<open>JavaScript's \<^verbatim>\<open>!!x\<close> on an optional boolean and on a nullable string.\<close>

definition truthy_bool :: "bool option \<Rightarrow> bool" where
  "truthy_bool b = (b = Some True)"

definition truthy_string :: "string option \<Rightarrow> bool" where
  "truthy_string x = (case x of None \<Rightarrow> False | Some str \<Rightarrow> str \<noteq> [])"

definition getContextForVariableMenuBase ::
  "element \<Rightarrow> (context_key \<times> bool) list \<Rightarrow> module_state
    \<Rightarrow> (context_key \<times> bool) list \<times> module_state" where
  "getContextForVariableMenuBase variable additionalContext m =
     (additionalContext, m\<lparr>variableInternalContext := Some variable\<rparr>)"

fun accessType_contextKey :: "access_type \<Rightarrow> context_key" where
  "accessType_contextKey ReadAccess = CONTEXT_BREAK_WHEN_VALUE_IS_READ_SUPPORTED"
| "accessType_contextKey WriteAccess = CONTEXT_BREAK_WHEN_VALUE_CHANGES_SUPPORTED"
| "accessType_contextKey ReadWriteAccess = CONTEXT_BREAK_WHEN_VALUE_IS_ACCESSED_SUPPORTED"

definition getContextForVariableMenuWithDataAccess ::
  "session option \<Rightarrow> element \<Rightarrow> module_state
    \<Rightarrow> (request_error + (context_key \<times> bool) list) \<times> module_state" where
  "getContextForVariableMenuWithDataAccess session variable m =
     (if session = None \<or> \<not> truthy_bool (se_supportsDataBreakpoints (the session))
      then (let (keys, m') = getContextForVariableMenuBase variable [] m in (Inr keys, m'))
      else
        (case se_dataBreakpointInfo (the session) of
           Inl err \<Rightarrow> (Inl err, m)
         | Inr response \<Rightarrow>
             (let m1 = m\<lparr>dataBreakpointInfoResponse := response\<rparr>;
                  dataBreakpointId =
                    (case dataBreakpointInfoResponse m1 of None \<Rightarrow> None
                     | Some r \<Rightarrow> r_dataId r);
                  dataBreakpointAccessTypes =
                    (case dataBreakpointInfoResponse m1 of None \<Rightarrow> None
                     | Some r \<Rightarrow> r_accessTypes r);
                  contextKeys =
                    (case dataBreakpointAccessTypes of
                       None \<Rightarrow>
                         [(CONTEXT_BREAK_WHEN_VALUE_CHANGES_SUPPORTED,
                           truthy_string dataBreakpointId)]
                     | Some ats \<Rightarrow>
                         map (\<lambda>accessType.
                           (accessType_contextKey accessType, truthy_string dataBreakpointId))
                           ats);
                  (keys, m2) = getContextForVariableMenuBase variable contextKeys m1
              in (Inr keys, m2))))"

definition addDataBreakpoint :: "data_breakpoint \<Rightarrow> module_state \<Rightarrow> module_state" where
  "addDataBreakpoint bp m = m\<lparr>dataBreakpoints := dataBreakpoints m @ [bp]\<rparr>"

definition BREAK_WHEN_VALUE_CHANGES_ID :: string where
  "BREAK_WHEN_VALUE_CHANGES_ID = ''debug.breakWhenValueChanges''"

definition BREAK_WHEN_VALUE_IS_ACCESSED_ID :: string where
  "BREAK_WHEN_VALUE_IS_ACCESSED_ID = ''debug.breakWhenValueIsAccessed''"

definition BREAK_WHEN_VALUE_IS_READ_ID :: string where
  "BREAK_WHEN_VALUE_IS_READ_ID = ''debug.breakWhenValueIsRead''"

definition breakWhenValueChanges :: "module_state \<Rightarrow> module_state" where
  "breakWhenValueChanges m =
     (case dataBreakpointInfoResponse m of None \<Rightarrow> m
      | Some r \<Rightarrow>
          addDataBreakpoint
            \<lparr>bp_description = r_description r, bp_src_type = VariableSetType,
             bp_src_dataId = r_dataId r, bp_canPersist = truthy_bool (r_canPersist r),
             bp_accessTypes = r_accessTypes r, bp_accessType = WriteAccess\<rparr> m)"

definition breakWhenValueIsAccessed :: "module_state \<Rightarrow> module_state" where
  "breakWhenValueIsAccessed m =
     (case dataBreakpointInfoResponse m of None \<Rightarrow> m
      | Some r \<Rightarrow>
          addDataBreakpoint
            \<lparr>bp_description = r_description r, bp_src_type = VariableSetType,
             bp_src_dataId = r_dataId r, bp_canPersist = truthy_bool (r_canPersist r),
             bp_accessTypes = r_accessTypes r, bp_accessType = ReadWriteAccess\<rparr> m)"

definition breakWhenValueIsRead :: "module_state \<Rightarrow> module_state" where
  "breakWhenValueIsRead m =
     (case dataBreakpointInfoResponse m of None \<Rightarrow> m
      | Some r \<Rightarrow>
          addDataBreakpoint
            \<lparr>bp_description = r_description r, bp_src_type = VariableSetType,
             bp_src_dataId = r_dataId r, bp_canPersist = truthy_bool (r_canPersist r),
             bp_accessTypes = r_accessTypes r, bp_accessType = ReadAccess\<rparr> m)"

text \<open>The command registry, restricted to the three commands above.\<close>

definition executeCommand :: "string \<Rightarrow> module_state \<Rightarrow> module_state" where
  "executeCommand cmd m =
     (if cmd = BREAK_WHEN_VALUE_CHANGES_ID then breakWhenValueChanges m
      else if cmd = BREAK_WHEN_VALUE_IS_ACCESSED_ID then breakWhenValueIsAccessed m
      else if cmd = BREAK_WHEN_VALUE_IS_READ_ID then breakWhenValueIsRead m
      else m)"

text \<open>
  What happens to the module's variables over time: a context menu is opened on a
  variable, or one of the commands is run. When the module is loaded neither variable
  holds anything.
\<close>

datatype module_event = OpenContextMenu "session option" element | ExecuteCommand string

fun module_step :: "module_event \<Rightarrow> module_state \<Rightarrow> module_state" where
  "module_step (OpenContextMenu session variable) m =
     snd (getContextForVariableMenuWithDataAccess session variable m)"
| "module_step (ExecuteCommand cmd) m = executeCommand cmd m"

fun module_run :: "module_event list \<Rightarrow> module_state \<Rightarrow> module_state" where
  "module_run [] m = m"
| "module_run (e # es) m = module_run es (module_step e m)"

definition module_initial :: "data_breakpoint list \<Rightarrow> module_state" where
  "module_initial bps =
     \<lparr>variableInternalContext = None, dataBreakpointInfoResponse = None,
      dataBreakpoints = bps\<rparr>"

text \<open>
  The response that opening a context menu captures: the session's answer, when there is
  a session, it supports data breakpoints and it answers the request; nothing otherwise.
\<close>

fun captured_at :: "module_event \<Rightarrow> data_breakpoint_info_response option" where
  "captured_at (OpenContextMenu session variable) =
     (case session of None \<Rightarrow> None
      | Some se \<Rightarrow>
          if truthy_bool (se_supportsDataBreakpoints se)
          then (case se_dataBreakpointInfo se of Inl err \<Rightarrow> None | Inr response \<Rightarrow> response)
          else None)"
| "captured_at (ExecuteCommand cmd) = None"

fun is_menu :: "module_event \<Rightarrow> bool" where
  "is_menu (OpenContextMenu session variable) = True"
| "is_menu (ExecuteCommand cmd) = False"

fun is_answered :: "module_event \<Rightarrow> bool" where
  "is_answered (OpenContextMenu session variable) =
     (case session of None \<Rightarrow> False
      | Some se \<Rightarrow>
          truthy_bool (se_supportsDataBreakpoints se)
          \<and> (case se_dataBreakpointInfo se of Inl err \<Rightarrow> False | Inr response \<Rightarrow> True))"
| "is_answered (ExecuteCommand cmd) = False"

text \<open>
  Two readings of which response the commands build from. \<open>lastOpened\<close> follows the
  words "captured when a variable's context menu was last opened": what the latest menu
  opening captured. \<open>lastAnswered\<close> is what the latest menu opening on a session that
  supports data breakpoints and answered the request captured.
\<close>

definition lastOpened :: "module_event list \<Rightarrow> data_breakpoint_info_response option" where
  "lastOpened es =
     (if filter is_menu es = [] then None else captured_at (last (filter is_menu es)))"

definition lastAnswered :: "module_event list \<Rightarrow> data_breakpoint_info_response option" where
  "lastAnswered es =
     (if filter is_answered es = [] then None
      else captured_at (last (filter is_answered es)))"

section \<open>Example data\<close>

definition ex_variable :: element where
  "ex_variable = Element VariableClass 11 ''variable:10:x'' False False []"

definition ex_globals :: element where
  "ex_globals = Element ScopeClass 9 ''scope:Globals:0'' True True []"

definition ex_locals :: element where
  "ex_locals = Element ScopeClass 10 ''scope:Locals:1'' True False [ex_variable]"

definition ex_locals_refetched :: element where
  "ex_locals_refetched = Element ScopeClass 20 ''scope:Locals:1'' True False [ex_variable]"

definition ex_frame :: stack_frame where
  "ex_frame = \<lparr>frame_id = ''stackframe:1:0'', frame_scopes = [ex_globals, ex_locals]\<rparr>"

definition ex_caller :: stack_frame where
  "ex_caller = \<lparr>frame_id = ''stackframe:1:1'', frame_scopes = []\<rparr>"

definition ex_options :: tree_options where
  "ex_options =
     \<lparr>opt_horizontalScrolling = Some True, opt_others = [(''indent'', ''8'')]\<rparr>"

definition ex_stepping :: focus_event where
  "ex_stepping = \<lparr>fe_stackFrame = Some ex_frame, fe_explicit = False\<rparr>"

definition ex_click :: focus_event where
  "ex_click = \<lparr>fe_stackFrame = Some ex_caller, fe_explicit = True\<rparr>"

definition ex_response :: data_breakpoint_info_response where
  "ex_response =
     \<lparr>r_dataId = Some ''x@10'', r_description = ''x'',
      r_accessTypes = Some [ReadAccess, WriteAccess], r_canPersist = None\<rparr>"

definition ex_other_variable :: element where
  "ex_other_variable = Element VariableClass 31 ''variable:30:y'' False False []"

definition ex_supporting :: session where
  "ex_supporting =
     \<lparr>se_supportsDataBreakpoints = Some True, se_dataBreakpointInfo = Inr (Some ex_response)\<rparr>"

definition ex_unsupporting :: session where
  "ex_unsupporting =
     \<lparr>se_supportsDataBreakpoints = None, se_dataBreakpointInfo = Inr None\<rparr>"

definition ex_failing :: session where
  "ex_failing =
     \<lparr>se_supportsDataBreakpoints = Some True, se_dataBreakpointInfo = Inl RequestRejected\<rparr>"

definition ex_history :: "module_event list" where
  "ex_history =
     [OpenContextMenu (Some ex_supporting) ex_variable,
      OpenContextMenu (Some ex_unsupporting) ex_other_variable]"

text \<open>
  The view after one stepping event and its refresh, and the view just after a frame got
  the focus.
\<close>

definition ex_refreshed :: state where
  "ex_refreshed = exec [FocusStackFrame ex_stepping, Advance 400] (initial None ex_options True)"

definition ex_focused :: state where
  "ex_focused = (initial None ex_options True)\<lparr>focusedStackFrame := Some ex_frame\<rparr>"

section \<open>The scheduler and the timer queue\<close>

text \<open>
  What each operation leaves alone, and the invariant that every event keeps: at most one
  timer is queued, and it is the one the scheduler holds.
\<close>

declare step.simps [simp del]

lemma runner_frame:
  "timers (updateTreeScheduler_runner g s) = timers s"
  "nextTimerId (updateTreeScheduler_runner g s) = nextTimerId s"
  "timeoutToken (updateTreeScheduler_runner g s) = timeoutToken s"
  "now (updateTreeScheduler_runner g s) = now s"
  "refreshRuns (updateTreeScheduler_runner g s) = refreshRuns s"
  "bodyVisible (updateTreeScheduler_runner g s) = bodyVisible s"
  "store (updateTreeScheduler_runner g s) = store s"
  "focusedStackFrame (updateTreeScheduler_runner g s) = focusedStackFrame s"
  "horizontalScrolling (updateTreeScheduler_runner g s) = horizontalScrolling s"
  "needsRefresh (updateTreeScheduler_runner g s) = False"
  by (simp_all add: updateTreeScheduler_runner_def Let_def split: option.split)

lemma cancel_inv:
  "scheduler_inv s \<Longrightarrow>
   timers (cancel s) = [] \<and> timeoutToken (cancel s) = None
   \<and> nextTimerId (cancel s) = nextTimerId s \<and> now (cancel s) = now s"
  by (auto simp: scheduler_inv_def cancel_def clearTimeout_def split: option.splits)

lemma schedule_inv_timers:
  "scheduler_inv s \<Longrightarrow>
   timers (schedule delay s) =
     [(nextTimerId s, now s + (case delay of None \<Rightarrow> updateTreeScheduler_timeout | Some d \<Rightarrow> d))]
   \<and> timeoutToken (schedule delay s) = Some (nextTimerId s)
   \<and> nextTimerId (schedule delay s) = Suc (nextTimerId s)"
  using cancel_inv [of s]
  by (simp add: schedule_def setTimeout_def Let_def split: option.split)

lemma schedule_frame:
  "now (schedule delay s) = now s"
  "refreshRuns (schedule delay s) = refreshRuns s"
  "bodyVisible (schedule delay s) = bodyVisible s"
  "store (schedule delay s) = store s"
  "needsRefresh (schedule delay s) = needsRefresh s"
  "tree (schedule delay s) = tree s"
  "savedViewState (schedule delay s) = savedViewState s"
  "autoExpandedScopes (schedule delay s) = autoExpandedScopes s"
  "focusedStackFrame (schedule delay s) = focusedStackFrame s"
  "horizontalScrolling (schedule delay s) = horizontalScrolling s"
  by (simp_all add: schedule_def setTimeout_def cancel_def clearTimeout_def Let_def
      split: option.split)

lemma schedule_inv: "scheduler_inv s \<Longrightarrow> scheduler_inv (schedule delay s)"
  using schedule_inv_timers [of s delay] by (simp add: scheduler_inv_def)

lemma onTimeout_frame:
  "timers (onTimeout s) = timers s"
  "nextTimerId (onTimeout s) = nextTimerId s"
  "timeoutToken (onTimeout s) = None"
  "now (onTimeout s) = now s"
  "bodyVisible (onTimeout s) = bodyVisible s"
  "store (onTimeout s) = store s"
  "refreshRuns (onTimeout s) = refreshRuns s @ [now s]"
  "needsRefresh (onTimeout s) = False"
  by (simp_all add: onTimeout_def Let_def runner_frame)

lemma advance_idle:
  "timers s = [] \<Longrightarrow> advance d s = s\<lparr>now := now s + d\<rparr>"
  by (simp add: advance_def Let_def)

lemma advance_early:
  "timers s = [(tok, due)] \<Longrightarrow> now s + d < due \<Longrightarrow> advance d s = s\<lparr>now := now s + d\<rparr>"
  by (simp add: advance_def Let_def)

lemma advance_due:
  "timers s = [(tok, due)] \<Longrightarrow> due \<le> now s + d \<Longrightarrow>
   advance d s = onTimeout (s\<lparr>now := now s + d, timers := []\<rparr>)"
  by (simp add: advance_def Let_def)

lemma inv_cases:
  "scheduler_inv s \<Longrightarrow>
   (timers s = [] \<and> timeoutToken s = None)
   \<or> (\<exists>tok due. timers s = [(tok, due)] \<and> timeoutToken s = Some tok \<and> tok < nextTimerId s)"
  by (cases "timers s") (auto simp: scheduler_inv_def split: option.splits)

lemma advance_inv: "scheduler_inv s \<Longrightarrow> scheduler_inv (advance d s)"
proof -
  assume inv: "scheduler_inv s"
  from inv_cases [OF inv] show ?thesis
  proof
    assume "timers s = [] \<and> timeoutToken s = None"
    then show ?thesis using inv by (simp add: advance_idle scheduler_inv_def)
  next
    assume "\<exists>tok due. timers s = [(tok, due)] \<and> timeoutToken s = Some tok \<and> tok < nextTimerId s"
    then obtain tok due where t: "timers s = [(tok, due)]" "timeoutToken s = Some tok" by blast
    show ?thesis
    proof (cases "due \<le> now s + d")
      case True
      then show ?thesis using t by (simp add: advance_due scheduler_inv_def onTimeout_frame)
    next
      case False
      then show ?thesis using t inv by (simp add: advance_early scheduler_inv_def)
    qed
  qed
qed

lemma advance_runs:
  "scheduler_inv s \<Longrightarrow> length (refreshRuns (advance d s)) \<le> Suc (length (refreshRuns s))"
proof -
  assume inv: "scheduler_inv s"
  from inv_cases [OF inv] show ?thesis
  proof
    assume "timers s = [] \<and> timeoutToken s = None"
    then show ?thesis by (simp add: advance_idle)
  next
    assume "\<exists>tok due. timers s = [(tok, due)] \<and> timeoutToken s = Some tok \<and> tok < nextTimerId s"
    then obtain tok due where t: "timers s = [(tok, due)]" by blast
    show ?thesis
    proof (cases "due \<le> now s + d")
      case True
      then show ?thesis using t by (simp add: advance_due onTimeout_frame)
    next
      case False
      then show ?thesis using t by (simp add: advance_early)
    qed
  qed
qed

lemma onDidFocusStackFrame_inv:
  "scheduler_inv s \<Longrightarrow> scheduler_inv (onDidFocusStackFrame sf s)"
  by (simp add: onDidFocusStackFrame_def Let_def schedule_inv) (simp add: scheduler_inv_def)

lemma onDidChangeBodyVisibility_inv:
  "scheduler_inv s \<Longrightarrow> scheduler_inv (onDidChangeBodyVisibility visible s)"
  by (simp add: onDidChangeBodyVisibility_def schedule_inv)

lemma onDidSelectExpression_sched:
  "timers (onDidSelectExpression e s) = timers s"
  "nextTimerId (onDidSelectExpression e s) = nextTimerId s"
  "timeoutToken (onDidSelectExpression e s) = timeoutToken s"
  "refreshRuns (onDidSelectExpression e s) = refreshRuns s"
  by (simp_all add: onDidSelectExpression_def Let_def)

lemma step_inv: "scheduler_inv s \<Longrightarrow> scheduler_inv (step e s)"
proof (cases e)
  case (FocusStackFrame sf)
  assume "scheduler_inv s"
  then have "scheduler_inv (s\<lparr>focusedStackFrame := fe_stackFrame sf\<rparr>)"
    by (simp add: scheduler_inv_def)
  then show ?thesis
    using FocusStackFrame by (simp add: step.simps Let_def onDidFocusStackFrame_inv)
next
  case (ChangeBodyVisibility visible)
  assume "scheduler_inv s"
  then have "scheduler_inv (s\<lparr>bodyVisible := visible\<rparr>)"
    by (simp add: scheduler_inv_def)
  then show ?thesis
    using ChangeBodyVisibility by (simp add: step.simps Let_def onDidChangeBodyVisibility_inv)
next
  case (SelectExpression x)
  assume "scheduler_inv s"
  then have "scheduler_inv (onDidSelectExpression x s)"
    by (simp add: scheduler_inv_def onDidSelectExpression_sched)
  then show ?thesis using SelectExpression \<open>scheduler_inv s\<close> by (simp add: step.simps)
next
  case EndSession
  assume "scheduler_inv s"
  then have "scheduler_inv (onDidEndSession s)"
    by (simp add: scheduler_inv_def onDidEndSession_def)
  then show ?thesis using EndSession \<open>scheduler_inv s\<close> by (simp add: step.simps)
next
  case (Advance d)
  assume "scheduler_inv s"
  then show ?thesis using Advance by (simp add: step.simps advance_inv)
next
  case Dispose
  assume "scheduler_inv s"
  then show ?thesis using Dispose
    by (simp add: step.simps scheduler_inv_def dispose_def)
qed

lemma exec_inv: "scheduler_inv s \<Longrightarrow> scheduler_inv (exec es s)"
  by (induction es arbitrary: s) (simp_all add: step_inv)

lemma initial_inv: "scheduler_inv (initial focused opts visible)"
  by (simp add: scheduler_inv_def initial_def)

lemma step_runs:
  "scheduler_inv s \<Longrightarrow>
   length (refreshRuns (step e s))
     \<le> length (refreshRuns s) + (case e of Advance d \<Rightarrow> 1 | _ \<Rightarrow> 0)"
  using advance_runs [of s]
  by (cases e)
     (simp_all add: step.simps onDidFocusStackFrame_def onDidChangeBodyVisibility_def
        onDidSelectExpression_sched onDidEndSession_def dispose_def schedule_frame Let_def)


lemma exec_runs:
  "scheduler_inv s \<Longrightarrow>
   length (refreshRuns (exec es s)) \<le> length (refreshRuns s) + advances es"
proof (induction es arbitrary: s)
  case Nil
  then show ?case by simp
next
  case (Cons e es)
  have "length (refreshRuns (exec es (step e s)))
      \<le> length (refreshRuns (step e s)) + advances es"
    using Cons.IH [OF step_inv [OF Cons.prems]] .
  moreover have "length (refreshRuns (step e s))
      \<le> length (refreshRuns s) + (case e of Advance d \<Rightarrow> 1 | _ \<Rightarrow> 0)"
    using step_runs [OF Cons.prems] .
  ultimately show ?case by (cases e) simp_all
qed

lemma focus_step_visible:
  assumes "scheduler_inv s" "bodyVisible s" "FocusStackFrameListener \<in> set (store s)"
  shows "timers (step (FocusStackFrame sf) s) = [(nextTimerId s, now s + delay_of sf)]"
    and "timeoutToken (step (FocusStackFrame sf) s) = Some (nextTimerId s)"
    and "refreshRuns (step (FocusStackFrame sf) s) = refreshRuns s"
    and "now (step (FocusStackFrame sf) s) = now s"
    and "bodyVisible (step (FocusStackFrame sf) s)"
    and "store (step (FocusStackFrame sf) s) = store s"
proof -
  let ?s1 = "s\<lparr>focusedStackFrame := fe_stackFrame sf\<rparr>"
  have inv1: "scheduler_inv ?s1" using assms(1) by (simp add: scheduler_inv_def)
  have st: "step (FocusStackFrame sf) s = schedule (if fe_explicit sf then Some 0 else None) ?s1"
    using assms(2,3) by (simp add: step.simps onDidFocusStackFrame_def Let_def)
  show "timers (step (FocusStackFrame sf) s) = [(nextTimerId s, now s + delay_of sf)]"
    using schedule_inv_timers [OF inv1, of "if fe_explicit sf then Some 0 else None"]
    by (simp add: st delay_of_def)
  show "timeoutToken (step (FocusStackFrame sf) s) = Some (nextTimerId s)"
    using schedule_inv_timers [OF inv1, of "if fe_explicit sf then Some 0 else None"]
    by (simp add: st)
  show "refreshRuns (step (FocusStackFrame sf) s) = refreshRuns s"
    and "now (step (FocusStackFrame sf) s) = now s"
    and "bodyVisible (step (FocusStackFrame sf) s)"
    and "store (step (FocusStackFrame sf) s) = store s"
    using assms(2) by (simp_all add: st schedule_frame)
qed

lemma exec_append: "exec (es @ fs) s = exec fs (exec es s)"
  by (induction es arbitrary: s) simp_all

lemma burst_quiet:
  assumes "scheduler_inv s" "bodyVisible s" "FocusStackFrameListener \<in> set (store s)"
    and "\<forall>x\<in>set xs. snd x < delay_of (fst x)"
  shows "refreshRuns (exec (burst xs) s) = refreshRuns s
    \<and> scheduler_inv (exec (burst xs) s) \<and> bodyVisible (exec (burst xs) s)
    \<and> FocusStackFrameListener \<in> set (store (exec (burst xs) s))
    \<and> (xs \<noteq> [] \<longrightarrow> (\<exists>tok due. timers (exec (burst xs) s) = [(tok, due)]
          \<and> due + snd (last xs) = now (exec (burst xs) s) + delay_of (fst (last xs))))"
  using assms
proof (induction xs arbitrary: s)
  case Nil
  then show ?case by simp
next
  case (Cons x xs)
  obtain sf d where x: "x = (sf, d)" by (cases x)
  let ?s1 = "step (FocusStackFrame sf) s"
  let ?s2 = "step (Advance d) ?s1"
  have d: "d < delay_of sf" using Cons.prems(4) x by simp
  have inv1: "scheduler_inv ?s1" using Cons.prems(1) by (rule step_inv)
  note f = focus_step_visible [OF Cons.prems(1,2,3), of sf]
  have adv: "?s2 = ?s1\<lparr>now := now ?s1 + d\<rparr>"
    using f(1,4) d by (simp add: step.simps advance_early)
  have inv2: "scheduler_inv ?s2" using inv1 by (rule step_inv)
  have vis2: "bodyVisible ?s2" using f(5) by (simp add: adv)
  have st2: "FocusStackFrameListener \<in> set (store ?s2)"
    using f(6) Cons.prems(3) by (simp add: adv)
  have runs2: "refreshRuns ?s2 = refreshRuns s" using f(3) by (simp add: adv)
  have rest: "\<forall>x\<in>set xs. snd x < delay_of (fst x)" using Cons.prems(4) by simp
  note IH = Cons.IH [OF inv2 vis2 st2 rest]
  have e: "exec (burst (x # xs)) s = exec (burst xs) ?s2" by (simp add: x)
  show ?case
  proof (cases "xs = []")
    case True
    have e1: "exec (burst (x # xs)) s = ?s2" using True by (simp add: x)
    have "timers ?s2 = [(nextTimerId s, now s + delay_of sf)]"
      and "now ?s2 = now s + d"
      using f(1,4) by (simp_all add: adv)
    then have "\<exists>tok due. timers ?s2 = [(tok, due)]
        \<and> due + snd (last (x # xs)) = now ?s2 + delay_of (fst (last (x # xs)))"
      using True by (simp add: x)
    then show ?thesis
      using inv2 vis2 st2 runs2 unfolding e1 by simp
  next
    case False
    then show ?thesis using IH runs2 by (simp add: e)
  qed
qed


lemma inv_timers_le1: "scheduler_inv s \<Longrightarrow> length (timers s) \<le> 1"
  using inv_cases [of s] by auto

lemma focus_run:
  assumes "scheduler_inv s" "bodyVisible s" "FocusStackFrameListener \<in> set (store s)"
  shows "scheduler_inv (exec (map FocusStackFrame fs) s)
    \<and> bodyVisible (exec (map FocusStackFrame fs) s)
    \<and> store (exec (map FocusStackFrame fs) s) = store s
    \<and> refreshRuns (exec (map FocusStackFrame fs) s) = refreshRuns s
    \<and> now (exec (map FocusStackFrame fs) s) = now s
    \<and> (fs \<noteq> [] \<longrightarrow> (\<exists>tok. timers (exec (map FocusStackFrame fs) s)
          = [(tok, now s + delay_of (last fs))]))"
  using assms
proof (induction fs arbitrary: s)
  case Nil
  then show ?case by simp
next
  case (Cons sf fs)
  let ?s1 = "step (FocusStackFrame sf) s"
  note f = focus_step_visible [OF Cons.prems, of sf]
  have inv1: "scheduler_inv ?s1" using Cons.prems(1) by (rule step_inv)
  have st1: "FocusStackFrameListener \<in> set (store ?s1)" using f(6) Cons.prems(3) by simp
  note IH = Cons.IH [OF inv1 f(5) st1]
  show ?case
  proof (cases "fs = []")
    case True
    then show ?thesis using inv1 f by simp
  next
    case False
    then show ?thesis using IH f by simp
  qed
qed

section \<open>Focus events and the debounced refresh\<close>

text \<open>
  C1. Take any sequence \<open>fs\<close> of focus events handled one after the other while the body
  is visible: no refresh runs while they are handled, the timer queue never holds more
  than one timer, and once an event has been handled it holds exactly one, due after the
  delay of the last event alone. The same holds for a burst \<open>xs\<close> in which every event is
  followed by a pause shorter than the delay it asked for, so that all of them fall into
  one debounce window: no refresh runs during the burst, one more focus event leaves
  exactly one timer again, and whatever time passes after the burst, at most one refresh
  runs, and exactly one once the default delay is over. The number of focus events plays
  no part: in any run of events at all, there are no more refreshes than advances of the
  clock.
\<close>

theorem focus_events_coalesce:
  assumes "scheduler_inv s" "bodyVisible s" "FocusStackFrameListener \<in> set (store s)"
    and "\<forall>x\<in>set xs. snd x < delay_of (fst x)"
  shows "refreshRuns (exec (map FocusStackFrame fs) s) = refreshRuns s
    \<and> length (timers (exec (map FocusStackFrame fs) s)) \<le> 1
    \<and> (fs \<noteq> [] \<longrightarrow>
          map snd (timers (exec (map FocusStackFrame fs) s)) = [now s + delay_of (last fs)])
    \<and> refreshRuns (exec (burst xs) s) = refreshRuns s
    \<and> length (timers (exec (burst xs) s)) \<le> 1
    \<and> (xs \<noteq> [] \<longrightarrow> length (timers (exec (burst xs) s)) = 1)
    \<and> (\<forall>sf. timers (step (FocusStackFrame sf) (exec (burst xs) s))
          = [(nextTimerId (exec (burst xs) s), now (exec (burst xs) s) + delay_of sf)])
    \<and> length (refreshRuns (exec (burst xs @ [Advance d]) s)) \<le> length (refreshRuns s) + 1
    \<and> (xs \<noteq> [] \<and> updateTreeScheduler_timeout \<le> d \<longrightarrow>
          refreshRuns (exec (burst xs @ [Advance d]) s)
            = refreshRuns s @ [now (exec (burst xs) s) + d])
    \<and> length (refreshRuns (exec es s)) \<le> length (refreshRuns s) + advances es"
proof -
  let ?s' = "exec (burst xs) s"
  let ?r = "exec (map FocusStackFrame fs) s"
  note r = focus_run [OF assms(1,2,3), of fs]
  have rruns: "refreshRuns ?r = refreshRuns s" using r by simp
  have rle: "length (timers ?r) \<le> 1" using r inv_timers_le1 by simp
  have rlast: "fs \<noteq> [] \<longrightarrow> map snd (timers ?r) = [now s + delay_of (last fs)]"
    using r by auto
  note q = burst_quiet [OF assms]
  have inv': "scheduler_inv ?s'" and vis': "bodyVisible ?s'"
    and st': "FocusStackFrameListener \<in> set (store ?s')"
    and runs': "refreshRuns ?s' = refreshRuns s"
    using q by simp_all
  have one: "xs \<noteq> [] \<longrightarrow> length (timers ?s') = 1" using q by auto
  have resched: "\<forall>sf. timers (step (FocusStackFrame sf) ?s')
      = [(nextTimerId ?s', now ?s' + delay_of sf)]"
    using focus_step_visible(1) [OF inv' vis' st'] by simp
  have ex: "exec (burst xs @ [Advance d]) s = advance d ?s'"
    by (simp add: exec_append step.simps)
  have bound:
    "length (refreshRuns (exec (burst xs @ [Advance d]) s)) \<le> length (refreshRuns s) + 1"
    using advance_runs [OF inv', of d] by (simp add: ex runs')
  have fires: "xs \<noteq> [] \<and> updateTreeScheduler_timeout \<le> d \<longrightarrow>
      refreshRuns (exec (burst xs @ [Advance d]) s) = refreshRuns s @ [now ?s' + d]"
  proof
    assume a: "xs \<noteq> [] \<and> updateTreeScheduler_timeout \<le> d"
    then obtain tok due where t: "timers ?s' = [(tok, due)]"
      and due: "due + snd (last xs) = now ?s' + delay_of (fst (last xs))"
      using q by blast
    have "delay_of (fst (last xs)) \<le> updateTreeScheduler_timeout" by (simp add: delay_of_def)
    then have "due \<le> now ?s' + d" using due a by linarith
    then show "refreshRuns (exec (burst xs @ [Advance d]) s) = refreshRuns s @ [now ?s' + d]"
      using t by (simp add: ex advance_due onTimeout_frame runs')
  qed
  have general: "length (refreshRuns (exec es s)) \<le> length (refreshRuns s) + advances es"
    using assms(1) by (rule exec_runs)
  show ?thesis
    by (intro conjI rruns rle rlast runs' inv_timers_le1 [OF inv'] one resched bound fires
        general)
qed

lemmas ex_defs = ex_variable_def ex_globals_def ex_locals_def ex_locals_refetched_def
  ex_other_variable_def
  ex_frame_def ex_caller_def ex_options_def ex_stepping_def ex_click_def

lemmas model_defs = initial_def registered_def scheduler_inv_def delay_of_def
  updateTreeScheduler_timeout_def step.simps onDidFocusStackFrame_def
  onDidChangeBodyVisibility_def schedule_def cancel_def clearTimeout_def setTimeout_def
  advance_def onTimeout_def updateTreeScheduler_runner_def setInput_def getInput_def
  getViewState_def hasNode_def expand_def empty_view_state_def dispose_def Let_def

theorem focus_events_coalesce_witness:
  "scheduler_inv (initial None ex_options True)
   \<and> bodyVisible (initial None ex_options True)
   \<and> FocusStackFrameListener \<in> set (store (initial None ex_options True))
   \<and> list_all (\<lambda>x. snd x < delay_of (fst x))
        [(ex_stepping, 100), (ex_stepping, 399), (ex_stepping, 0)]
   \<and> timers (exec (map FocusStackFrame [ex_stepping, ex_click, ex_stepping])
        (initial None ex_options True)) = [(2, 400)]
   \<and> timers (exec (map FocusStackFrame [ex_stepping, ex_stepping, ex_click])
        (initial None ex_options True)) = [(2, 0)]
   \<and> length (timers (exec (burst [(ex_stepping, 100), (ex_stepping, 399), (ex_stepping, 0)])
        (initial None ex_options True))) = 1
   \<and> refreshRuns (exec (burst [(ex_stepping, 100), (ex_stepping, 399), (ex_stepping, 0)]
        @ [Advance 400]) (initial None ex_options True)) = [899]"
  using focus_events_coalesce [where s = "initial None ex_options True"
      and xs = "[(ex_stepping, 100), (ex_stepping, 399), (ex_stepping, 0)]" and d = 400
      and es = "[]" and fs = "[ex_stepping, ex_click, ex_stepping]"]
    focus_events_coalesce [where s = "initial None ex_options True"
      and xs = "[]" and d = 0 and es = "[]" and fs = "[ex_stepping, ex_stepping, ex_click]"]
  by (simp add: model_defs ex_defs)


lemma advance_single:
  "timers s = [(tok, due)] \<Longrightarrow>
   refreshRuns (advance d s) = (if due \<le> now s + d then refreshRuns s @ [now s + d] else refreshRuns s)
   \<and> needsRefresh (advance d s) = (if due \<le> now s + d then False else needsRefresh s)"
  by (simp add: advance_due advance_early onTimeout_frame not_le)

text \<open>
  C2. A focus event handled with the body visible leaves one pending task, due now for
  an explicit event and 400 milliseconds from now otherwise: the refresh runs as soon as
  that much time has passed and not before.
\<close>

theorem focus_schedules_with_delay:
  assumes "scheduler_inv s" "bodyVisible s"
  shows "timers (onDidFocusStackFrame sf s)
      = [(nextTimerId s, now s + (if fe_explicit sf then 0 else 400))]
    \<and> timeoutToken (onDidFocusStackFrame sf s) = Some (nextTimerId s)
    \<and> refreshRuns (advance d (onDidFocusStackFrame sf s))
      = (if (if fe_explicit sf then 0 else 400) \<le> d then refreshRuns s @ [now s + d]
         else refreshRuns s)"
proof -
  let ?s' = "onDidFocusStackFrame sf s"
  have st: "?s' = schedule (if fe_explicit sf then Some 0 else None) s"
    using assms(2) by (simp add: onDidFocusStackFrame_def Let_def)
  have t: "timers ?s' = [(nextTimerId s, now s + (if fe_explicit sf then 0 else 400))]"
    and tok: "timeoutToken ?s' = Some (nextTimerId s)"
    using schedule_inv_timers [OF assms(1), of "if fe_explicit sf then Some 0 else None"]
    by (simp_all add: st updateTreeScheduler_timeout_def)
  have "now ?s' = now s" and "refreshRuns ?s' = refreshRuns s"
    by (simp_all add: st schedule_frame)
  then have "refreshRuns (advance d ?s')
      = (if (if fe_explicit sf then 0 else 400) \<le> d then refreshRuns s @ [now s + d]
         else refreshRuns s)"
    using advance_single [OF t, of d] by simp
  then show ?thesis using t tok by simp
qed

theorem focus_schedules_with_delay_witness:
  "scheduler_inv (initial None ex_options True) \<and> bodyVisible (initial None ex_options True)
   \<and> timers (onDidFocusStackFrame ex_click (initial None ex_options True)) = [(0, 0)]
   \<and> timers (onDidFocusStackFrame ex_stepping (initial None ex_options True)) = [(0, 400)]
   \<and> refreshRuns (advance 0 (onDidFocusStackFrame ex_click (initial None ex_options True))) = [0]
   \<and> refreshRuns (advance 399 (onDidFocusStackFrame ex_stepping (initial None ex_options True))) = []
   \<and> refreshRuns (advance 400 (onDidFocusStackFrame ex_stepping (initial None ex_options True))) = [400]"
  using focus_schedules_with_delay [of "initial None ex_options True" ex_click 0]
    focus_schedules_with_delay [of "initial None ex_options True" ex_stepping 399]
    focus_schedules_with_delay [of "initial None ex_options True" ex_stepping 400]
  by (simp add: model_defs ex_defs)

text \<open>
  C9. With the body hidden, a focus event only sets \<open>needsRefresh\<close>: the timer queue and
  the scheduler's token stay as they were. When the body then becomes visible, a refresh
  is scheduled after the default delay, the flag staying set until the task runs and
  clears it. Becoming visible with the flag unset schedules nothing, and neither does
  becoming hidden.
\<close>

theorem hidden_focus_defers_refresh:
  assumes "scheduler_inv s" "\<not> bodyVisible s"
    and "FocusStackFrameListener \<in> set (store s)" "BodyVisibilityListener \<in> set (store s)"
  shows "step (FocusStackFrame sf) s
      = s\<lparr>focusedStackFrame := fe_stackFrame sf, needsRefresh := True\<rparr>
    \<and> timers (step (FocusStackFrame sf) s) = timers s
    \<and> timeoutToken (step (FocusStackFrame sf) s) = timeoutToken s
    \<and> timers (exec [FocusStackFrame sf, ChangeBodyVisibility True] s)
      = [(nextTimerId s, now s + 400)]
    \<and> needsRefresh (exec [FocusStackFrame sf, ChangeBodyVisibility True] s)
    \<and> (400 \<le> d \<longrightarrow>
         \<not> needsRefresh (exec [FocusStackFrame sf, ChangeBodyVisibility True, Advance d] s)
         \<and> refreshRuns (exec [FocusStackFrame sf, ChangeBodyVisibility True, Advance d] s)
           = refreshRuns s @ [now s + d])
    \<and> (\<not> needsRefresh s \<longrightarrow> step (ChangeBodyVisibility True) s = s\<lparr>bodyVisible := True\<rparr>)
    \<and> step (ChangeBodyVisibility False) s = s\<lparr>bodyVisible := False\<rparr>
    \<and> \<not> needsRefresh (updateTreeScheduler_runner g s)"
proof -
  let ?s1 = "s\<lparr>focusedStackFrame := fe_stackFrame sf, needsRefresh := True\<rparr>"
  let ?v = "s\<lparr>focusedStackFrame := fe_stackFrame sf, needsRefresh := True, bodyVisible := True\<rparr>"
  let ?s2 = "schedule None ?v"
  have s1: "step (FocusStackFrame sf) s = ?s1"
    using assms(2,3) by (simp add: step.simps onDidFocusStackFrame_def Let_def)
  have invv: "scheduler_inv ?v" using assms(1) by (simp add: scheduler_inv_def)
  have s2: "step (ChangeBodyVisibility True) ?s1 = ?s2"
    using assms(4) by (simp add: step.simps onDidChangeBodyVisibility_def Let_def)
  have t2: "timers ?s2 = [(nextTimerId s, now s + 400)]"
    using schedule_inv_timers [OF invv, of None]
    by (simp add: updateTreeScheduler_timeout_def)
  have n2: "needsRefresh ?s2" and now2: "now ?s2 = now s"
    and r2: "refreshRuns ?s2 = refreshRuns s"
    by (simp_all add: schedule_frame)
  have adv: "400 \<le> d \<longrightarrow> \<not> needsRefresh (step (Advance d) ?s2)
      \<and> refreshRuns (step (Advance d) ?s2) = refreshRuns s @ [now s + d]"
    using advance_single [OF t2, of d] by (simp add: step.simps now2 r2)
  have vis: "\<not> needsRefresh s \<longrightarrow> step (ChangeBodyVisibility True) s = s\<lparr>bodyVisible := True\<rparr>"
    by (simp add: step.simps onDidChangeBodyVisibility_def Let_def)
  have hide: "step (ChangeBodyVisibility False) s = s\<lparr>bodyVisible := False\<rparr>"
    by (simp add: step.simps onDidChangeBodyVisibility_def Let_def)
  show ?thesis
    using t2 n2 adv vis hide by (simp add: s1 s2 runner_frame)
qed

theorem hidden_focus_defers_refresh_witness:
  "scheduler_inv (initial None ex_options False) \<and> \<not> bodyVisible (initial None ex_options False)
   \<and> FocusStackFrameListener \<in> set (store (initial None ex_options False))
   \<and> BodyVisibilityListener \<in> set (store (initial None ex_options False))
   \<and> timers (step (FocusStackFrame ex_stepping) (initial None ex_options False)) = []
   \<and> needsRefresh (step (FocusStackFrame ex_stepping) (initial None ex_options False))
   \<and> timers (exec [FocusStackFrame ex_stepping, ChangeBodyVisibility True]
        (initial None ex_options False)) = [(0, 400)]
   \<and> \<not> needsRefresh (exec [FocusStackFrame ex_stepping, ChangeBodyVisibility True, Advance 400]
        (initial None ex_options False))
   \<and> refreshRuns (exec [FocusStackFrame ex_stepping, ChangeBodyVisibility True, Advance 400]
        (initial None ex_options False)) = [400]"
  using hidden_focus_defers_refresh [of "initial None ex_options False" ex_stepping 400]
  by (simp add: model_defs ex_defs)

text \<open>
  C4. Disposing the view should cancel a pending refresh. It does not: \<open>dispose\<close> empties
  the store of registered disposables and touches neither the timer queue nor the
  scheduler's token. After a stepping event and a disposal the timer is still queued, and
  400 milliseconds later the refresh runs on the disposed view. Had the scheduler been
  disposed with the rest, nothing would run.
\<close>

theorem dispose_keeps_pending_refresh:
  "timers (dispose s) = timers s \<and> timeoutToken (dispose s) = timeoutToken s
   \<and> timers (exec [FocusStackFrame ex_stepping, Dispose] (initial None ex_options True))
     = [(0, 400)]
   \<and> store (exec [FocusStackFrame ex_stepping, Dispose] (initial None ex_options True)) = []
   \<and> refreshRuns (exec [FocusStackFrame ex_stepping, Dispose, Advance 400]
       (initial None ex_options True)) = [400]
   \<and> refreshRuns (exec [Advance 400] (scheduler_dispose
       (exec [FocusStackFrame ex_stepping, Dispose] (initial None ex_options True)))) = []"
  by (simp add: model_defs ex_defs scheduler_dispose_def)


section \<open>The refresh task\<close>



lemma runner_focused_tree:
  "focusedStackFrame s = Some sf \<Longrightarrow>
   tree (updateTreeScheduler_runner g s)
     = (let t3 = setInput (Some sf)
                   ((case getInput (tree s) of None \<Rightarrow> savedViewState s
                     | Some input \<Rightarrow>
                         (savedViewState s)(frame_id input \<mapsto> getViewState (tree s)))
                    (frame_id sf))
                   (tree s)
        in case find (\<lambda>sc. \<not> el_expensive sc) (g sf) of None \<Rightarrow> t3
           | Some toExpand \<Rightarrow> if hasNode toExpand t3 then expand toExpand t3 else t3)"
  by (simp add: updateTreeScheduler_runner_def Let_def split: option.split)

lemma runner_focused_auto:
  "focusedStackFrame s = Some sf \<Longrightarrow>
   autoExpandedScopes (updateTreeScheduler_runner g s)
     = (let t3 = setInput (Some sf)
                   ((case getInput (tree s) of None \<Rightarrow> savedViewState s
                     | Some input \<Rightarrow>
                         (savedViewState s)(frame_id input \<mapsto> getViewState (tree s)))
                    (frame_id sf))
                   (tree s)
        in case find (\<lambda>sc. \<not> el_expensive sc) (g sf) of None \<Rightarrow> autoExpandedScopes s
           | Some toExpand \<Rightarrow>
               if hasNode toExpand t3 then insert (el_id toExpand) (autoExpandedScopes s)
               else autoExpandedScopes s)"
  by (simp add: updateTreeScheduler_runner_def Let_def split: option.split)



lemma ex_refreshed_eval:
  "ex_refreshed =
     \<lparr>now = 400, timers = [], nextTimerId = 1, focusedStackFrame = Some ex_frame,
      timeoutToken = None, needsRefresh = False,
      tree = \<lparr>t_input = Some ex_frame,
        t_viewState = \<lparr>vs_expanded = [''scope:Locals:1''], vs_focus = [], vs_selection = [],
          vs_scrollTop = 0\<rparr>,
        t_nodes = [ex_globals, ex_locals, ex_variable], t_options = ex_options,
        t_rerendered = [], t_requests = [StackFrameEl ex_frame, ElementEl ex_locals]\<rparr>,
      savedViewState = Map.empty, autoExpandedScopes = {''scope:Locals:1''},
      horizontalScrolling = None, bodyVisible = True, store = registered,
      refreshRuns = [400]\<rparr>"
  by (simp add: ex_refreshed_def model_defs ex_defs)

lemmas tree_defs = setInput_def getInput_def getViewState_def hasNode_def expand_def
  empty_view_state_def Let_def


lemma find_first:
  "find P xs = Some x \<longleftrightarrow> (\<exists>i<length xs. xs ! i = x \<and> P x \<and> (\<forall>j<i. \<not> P (xs ! j)))"
  by (auto simp: find_Some_iff)

text \<open>
  C10. After a refresh with a focused frame, let \<open>t3\<close> be the tree as \<^verbatim>\<open>setInput\<close> left
  it. If the scopes of the frame contain one that is not expensive, the first such scope
  is expanded and its id joins \<open>autoExpandedScopes\<close>, provided \<open>t3\<close> has that node;
  if \<open>t3\<close> lacks the node, or every scope is expensive, the tree stays \<open>t3\<close> and
  \<open>autoExpandedScopes\<close> stays as it was. When the scopes are the ones the tree has just
  fetched, the node is there.
\<close>

theorem refresh_expands_first_cheap_scope:
  fixes sf :: stack_frame
  assumes "focusedStackFrame s = Some sf"
  shows
  "(let t3 = setInput (Some sf)
               ((case getInput (tree s) of None \<Rightarrow> savedViewState s
                 | Some input \<Rightarrow>
                     (savedViewState s)(frame_id input \<mapsto> getViewState (tree s)))
                (frame_id sf))
               (tree s);
        s' = updateTreeScheduler_runner g s
    in (case find (\<lambda>sc. \<not> el_expensive sc) (g sf) of
          None \<Rightarrow> tree s' = t3 \<and> autoExpandedScopes s' = autoExpandedScopes s
        | Some toExpand \<Rightarrow>
            if hasNode toExpand t3
            then tree s' = expand toExpand t3
              \<and> autoExpandedScopes s' = insert (el_id toExpand) (autoExpandedScopes s)
              \<and> el_id toExpand \<in> set (vs_expanded (getViewState (tree s')))
            else tree s' = t3 \<and> autoExpandedScopes s' = autoExpandedScopes s)
       \<and> (g sf = frame_scopes sf \<longrightarrow>
            (\<forall>sc. find (\<lambda>sc. \<not> el_expensive sc) (g sf) = Some sc \<longrightarrow> hasNode sc t3)))
   \<and> (find (\<lambda>sc. \<not> el_expensive sc) (g sf) = Some x
        \<longleftrightarrow> (\<exists>i<length (g sf). g sf ! i = x \<and> \<not> el_expensive x
              \<and> (\<forall>j<i. el_expensive (g sf ! j))))
   \<and> (find (\<lambda>sc. \<not> el_expensive sc) (g sf) = None
        \<longleftrightarrow> (\<forall>sc\<in>set (g sf). el_expensive sc))"
proof (intro conjI)
  let ?t3 = "setInput (Some sf)
               ((case getInput (tree s) of None \<Rightarrow> savedViewState s
                 | Some input \<Rightarrow>
                     (savedViewState s)(frame_id input \<mapsto> getViewState (tree s)))
                (frame_id sf))
               (tree s)"
  let ?s' = "updateTreeScheduler_runner g s"
  have T: "tree ?s' = (case find (\<lambda>sc. \<not> el_expensive sc) (g sf) of None \<Rightarrow> ?t3
           | Some toExpand \<Rightarrow> if hasNode toExpand ?t3 then expand toExpand ?t3 else ?t3)"
    using runner_focused_tree [OF assms, of g] by (simp only: Let_def)
  have A: "autoExpandedScopes ?s' =
      (case find (\<lambda>sc. \<not> el_expensive sc) (g sf) of None \<Rightarrow> autoExpandedScopes s
       | Some toExpand \<Rightarrow>
           if hasNode toExpand ?t3 then insert (el_id toExpand) (autoExpandedScopes s)
           else autoExpandedScopes s)"
    using runner_focused_auto [OF assms, of g] by (simp only: Let_def)
  have E: "\<And>e t. el_id e \<in> set (vs_expanded (getViewState (expand e t)))"
    by (simp add: expand_def getViewState_def)
  have cases: "case find (\<lambda>sc. \<not> el_expensive sc) (g sf) of
          None \<Rightarrow> tree ?s' = ?t3 \<and> autoExpandedScopes ?s' = autoExpandedScopes s
        | Some toExpand \<Rightarrow>
            if hasNode toExpand ?t3
            then tree ?s' = expand toExpand ?t3
              \<and> autoExpandedScopes ?s' = insert (el_id toExpand) (autoExpandedScopes s)
              \<and> el_id toExpand \<in> set (vs_expanded (getViewState (tree ?s')))
            else tree ?s' = ?t3 \<and> autoExpandedScopes ?s' = autoExpandedScopes s"
    using T A E by (simp split: option.split)
  have present: "g sf = frame_scopes sf \<longrightarrow>
      (\<forall>sc. find (\<lambda>sc. \<not> el_expensive sc) (g sf) = Some sc \<longrightarrow> hasNode sc ?t3)"
  proof (intro impI allI)
    fix sc
    assume g: "g sf = frame_scopes sf"
      and f: "find (\<lambda>sc. \<not> el_expensive sc) (g sf) = Some sc"
    from f have "sc \<in> set (g sf)" by (auto simp: find_Some_iff)
    then show "hasNode sc ?t3" using g by (simp add: hasNode_def setInput_def Let_def)
  qed
  show "let t3 = ?t3; s' = updateTreeScheduler_runner g s
    in (case find (\<lambda>sc. \<not> el_expensive sc) (g sf) of
          None \<Rightarrow> tree s' = t3 \<and> autoExpandedScopes s' = autoExpandedScopes s
        | Some toExpand \<Rightarrow>
            if hasNode toExpand t3
            then tree s' = expand toExpand t3
              \<and> autoExpandedScopes s' = insert (el_id toExpand) (autoExpandedScopes s)
              \<and> el_id toExpand \<in> set (vs_expanded (getViewState (tree s')))
            else tree s' = t3 \<and> autoExpandedScopes s' = autoExpandedScopes s)
       \<and> (g sf = frame_scopes sf \<longrightarrow>
            (\<forall>sc. find (\<lambda>sc. \<not> el_expensive sc) (g sf) = Some sc \<longrightarrow> hasNode sc t3))"
    unfolding Let_def by (rule conjI [OF cases present])
  show "find (\<lambda>sc. \<not> el_expensive sc) (g sf) = Some x
        \<longleftrightarrow> (\<exists>i<length (g sf). g sf ! i = x \<and> \<not> el_expensive x
              \<and> (\<forall>j<i. el_expensive (g sf ! j)))"
    using find_first [of "\<lambda>sc. \<not> el_expensive sc" "g sf" x] by simp
  show "find (\<lambda>sc. \<not> el_expensive sc) (g sf) = None
        \<longleftrightarrow> (\<forall>sc\<in>set (g sf). el_expensive sc)"
    by (auto simp: find_None_iff)
qed

theorem refresh_expands_first_cheap_scope_witness:
  "focusedStackFrame ex_focused = Some ex_frame
   \<and> find (\<lambda>sc. \<not> el_expensive sc) (frame_scopes ex_frame) = Some ex_locals
   \<and> autoExpandedScopes (updateTreeScheduler_runner frame_scopes ex_focused)
      = {''scope:Locals:1''}
   \<and> vs_expanded (t_viewState (tree (updateTreeScheduler_runner frame_scopes ex_focused)))
      = [''scope:Locals:1'']
   \<and> find (\<lambda>sc. \<not> el_expensive sc) [ex_globals, ex_locals_refetched] = Some ex_locals_refetched
   \<and> autoExpandedScopes
        (updateTreeScheduler_runner (\<lambda>f. [ex_globals, ex_locals_refetched]) ex_focused) = {}
   \<and> vs_expanded (t_viewState (tree
        (updateTreeScheduler_runner (\<lambda>f. [ex_globals, ex_locals_refetched]) ex_focused))) = []
   \<and> autoExpandedScopes (updateTreeScheduler_runner (\<lambda>f. [ex_globals]) ex_focused) = {}"
  using refresh_expands_first_cheap_scope [where s = ex_focused and sf = ex_frame
      and g = frame_scopes and x = ex_locals]
    refresh_expands_first_cheap_scope [where s = ex_focused and sf = ex_frame
      and g = "\<lambda>f. [ex_globals, ex_locals_refetched]" and x = ex_locals_refetched]
    refresh_expands_first_cheap_scope [where s = ex_focused and sf = ex_frame
      and g = "\<lambda>f. [ex_globals]" and x = ex_globals]
  by (simp add: ex_focused_def initial_def tree_defs ex_defs)

section \<open>Horizontal scrolling while an expression is selected\<close>

text \<open>
  C8. Selecting a variable that the tree has remembers the tree's
  \<^verbatim>\<open>horizontalScrolling\<close> option and switches the option off if it was on. Clearing
  the selection while a value is remembered writes that value back and forgets it, so
  that selecting and then clearing leaves the options as they were. A selection of
  something the tree does not have, and a clearing with nothing remembered, change
  nothing; and no other option of the tree is ever changed by the handler.
\<close>

theorem select_expression_horizontal_scrolling:
  "(hasNode v (tree s) \<longrightarrow>
      horizontalScrolling (onDidSelectExpression (Some v) s)
        = opt_horizontalScrolling (t_options (tree s))
      \<and> opt_horizontalScrolling (t_options (tree (onDidSelectExpression (Some v) s)))
        = (if opt_horizontalScrolling (t_options (tree s)) = Some True then Some False
           else opt_horizontalScrolling (t_options (tree s)))
      \<and> t_options (tree (onDidSelectExpression None (onDidSelectExpression (Some v) s)))
        = t_options (tree s)
      \<and> horizontalScrolling (onDidSelectExpression None (onDidSelectExpression (Some v) s))
        = None)
   \<and> (horizontalScrolling s = Some b \<longrightarrow>
      opt_horizontalScrolling (t_options (tree (onDidSelectExpression None s))) = Some b
      \<and> horizontalScrolling (onDidSelectExpression None s) = None)
   \<and> (\<not> hasNode v (tree s) \<longrightarrow> onDidSelectExpression (Some v) s = s)
   \<and> (horizontalScrolling s = None \<longrightarrow> onDidSelectExpression None s = s)
   \<and> opt_others (t_options (tree (onDidSelectExpression e s)))
        = opt_others (t_options (tree s))"
proof -
  have sel: "hasNode v (tree s) \<longrightarrow>
      horizontalScrolling (onDidSelectExpression (Some v) s)
        = opt_horizontalScrolling (t_options (tree s))
      \<and> opt_horizontalScrolling (t_options (tree (onDidSelectExpression (Some v) s)))
        = (if opt_horizontalScrolling (t_options (tree s)) = Some True then Some False
           else opt_horizontalScrolling (t_options (tree s)))"
    by (simp add: onDidSelectExpression_def Let_def updateOptions_horizontalScrolling_def
        rerender_def)
  have round: "hasNode v (tree s) \<longrightarrow>
      t_options (tree (onDidSelectExpression None (onDidSelectExpression (Some v) s)))
        = t_options (tree s)
      \<and> horizontalScrolling (onDidSelectExpression None (onDidSelectExpression (Some v) s))
        = None"
    by (cases "opt_horizontalScrolling (t_options (tree s))")
       (auto simp: onDidSelectExpression_def Let_def updateOptions_horizontalScrolling_def
          rerender_def)
  have clear: "horizontalScrolling s = Some b \<longrightarrow>
      opt_horizontalScrolling (t_options (tree (onDidSelectExpression None s))) = Some b
      \<and> horizontalScrolling (onDidSelectExpression None s) = None"
    by (simp add: onDidSelectExpression_def updateOptions_horizontalScrolling_def)
  have absent: "\<not> hasNode v (tree s) \<longrightarrow> onDidSelectExpression (Some v) s = s"
    by (simp add: onDidSelectExpression_def)
  have idle: "horizontalScrolling s = None \<longrightarrow> onDidSelectExpression None s = s"
    by (simp add: onDidSelectExpression_def)
  have others: "opt_others (t_options (tree (onDidSelectExpression e s)))
        = opt_others (t_options (tree s))"
    by (simp add: onDidSelectExpression_def Let_def updateOptions_horizontalScrolling_def
        rerender_def)
  show ?thesis using sel round clear absent idle others by simp
qed

theorem select_expression_horizontal_scrolling_witness:
  "hasNode ex_variable (tree ex_refreshed)
   \<and> opt_horizontalScrolling (t_options (tree ex_refreshed)) = Some True
   \<and> horizontalScrolling (onDidSelectExpression (Some ex_variable) ex_refreshed) = Some True
   \<and> t_options (tree (onDidSelectExpression (Some ex_variable) ex_refreshed))
      = \<lparr>opt_horizontalScrolling = Some False, opt_others = [(''indent'', ''8'')]\<rparr>
   \<and> t_options (tree (onDidSelectExpression None
        (onDidSelectExpression (Some ex_variable) ex_refreshed)))
      = \<lparr>opt_horizontalScrolling = Some True, opt_others = [(''indent'', ''8'')]\<rparr>
   \<and> \<not> hasNode ex_locals_refetched (tree ex_refreshed)
   \<and> onDidSelectExpression (Some ex_locals_refetched) ex_refreshed = ex_refreshed
   \<and> horizontalScrolling ex_refreshed = None
   \<and> onDidSelectExpression None ex_refreshed = ex_refreshed"
  using select_expression_horizontal_scrolling [where s = ex_refreshed and v = ex_variable
      and b = True and e = None]
    select_expression_horizontal_scrolling [where s = ex_refreshed
      and v = ex_locals_refetched and b = True and e = None]
    select_expression_horizontal_scrolling
      [where s = "onDidSelectExpression (Some ex_variable) ex_refreshed" and v = ex_variable
       and b = True and e = None]
  by (simp add: ex_refreshed_eval hasNode_def ex_defs)

section \<open>Properties of the data breakpoint commands\<close>

lemmas command_ids = BREAK_WHEN_VALUE_CHANGES_ID_def BREAK_WHEN_VALUE_IS_ACCESSED_ID_def
  BREAK_WHEN_VALUE_IS_READ_ID_def

lemmas command_defs = executeCommand_def command_ids breakWhenValueChanges_def
  breakWhenValueIsAccessed_def breakWhenValueIsRead_def addDataBreakpoint_def

lemma executeCommand_response:
  "dataBreakpointInfoResponse (executeCommand cmd m) = dataBreakpointInfoResponse m"
  by (simp add: command_defs split: option.split)

lemma menu_response:
  "dataBreakpointInfoResponse (module_step e m)
     = (if is_answered e then captured_at e else dataBreakpointInfoResponse m)"
proof (cases e)
  case (OpenContextMenu session variable)
  then show ?thesis
    by (cases session)
       (auto simp: getContextForVariableMenuWithDataAccess_def
          getContextForVariableMenuBase_def Let_def split: sum.splits)
next
  case (ExecuteCommand cmd)
  then show ?thesis by (simp add: executeCommand_response)
qed

lemma run_response:
  "dataBreakpointInfoResponse (module_run es m)
     = (if filter is_answered es = [] then dataBreakpointInfoResponse m
        else captured_at (last (filter is_answered es)))"
proof (induction es arbitrary: m)
  case Nil
  then show ?case by simp
next
  case (Cons e es)
  show ?case by (simp add: Cons.IH menu_response)
qed

lemma run_response_initial:
  "dataBreakpointInfoResponse (module_run es (module_initial bps)) = lastAnswered es"
  by (simp add: run_response lastAnswered_def module_initial_def)

lemma commands_idle:
  "dataBreakpointInfoResponse m = None \<Longrightarrow>
   executeCommand ''debug.breakWhenValueChanges'' m = m
   \<and> executeCommand ''debug.breakWhenValueIsAccessed'' m = m
   \<and> executeCommand ''debug.breakWhenValueIsRead'' m = m"
  by (simp add: command_defs)

lemma commands_add:
  "dataBreakpointInfoResponse m = Some r \<Longrightarrow>
   executeCommand ''debug.breakWhenValueChanges'' m
     = m\<lparr>dataBreakpoints := dataBreakpoints m @
         [\<lparr>bp_description = r_description r, bp_src_type = VariableSetType,
           bp_src_dataId = r_dataId r, bp_canPersist = (r_canPersist r = Some True),
           bp_accessTypes = r_accessTypes r, bp_accessType = WriteAccess\<rparr>]\<rparr>
   \<and> executeCommand ''debug.breakWhenValueIsAccessed'' m
     = m\<lparr>dataBreakpoints := dataBreakpoints m @
         [\<lparr>bp_description = r_description r, bp_src_type = VariableSetType,
           bp_src_dataId = r_dataId r, bp_canPersist = (r_canPersist r = Some True),
           bp_accessTypes = r_accessTypes r, bp_accessType = ReadWriteAccess\<rparr>]\<rparr>
   \<and> executeCommand ''debug.breakWhenValueIsRead'' m
     = m\<lparr>dataBreakpoints := dataBreakpoints m @
         [\<lparr>bp_description = r_description r, bp_src_type = VariableSetType,
           bp_src_dataId = r_dataId r, bp_canPersist = (r_canPersist r = Some True),
           bp_accessTypes = r_accessTypes r, bp_accessType = ReadAccess\<rparr>]\<rparr>"
  by (simp add: command_defs truthy_bool_def)

text \<open>
  C7, as amended. Whatever menus were opened and commands run since the module was
  loaded, the response the module holds is the one captured the last time a context menu
  was opened on a session that supports data breakpoints and answered the request. With
  no such response, none of the three commands changes anything. With such a response
  \<open>r\<close>, each command appends exactly one data breakpoint, with the description, data id
  and access types of \<open>r\<close>, the truth value of its \<^verbatim>\<open>canPersist\<close>, and the access type
  \<^verbatim>\<open>write\<close>, \<^verbatim>\<open>readWrite\<close> or \<^verbatim>\<open>read\<close> of the command. Opening a menu never adds a
  breakpoint.
\<close>

theorem data_breakpoint_commands_last_answered:
  "dataBreakpointInfoResponse (module_run es (module_initial bps)) = lastAnswered es
   \<and> (lastAnswered es = None \<longrightarrow>
        executeCommand ''debug.breakWhenValueChanges'' (module_run es (module_initial bps))
          = module_run es (module_initial bps)
        \<and> executeCommand ''debug.breakWhenValueIsAccessed'' (module_run es (module_initial bps))
          = module_run es (module_initial bps)
        \<and> executeCommand ''debug.breakWhenValueIsRead'' (module_run es (module_initial bps))
          = module_run es (module_initial bps))
   \<and> (lastAnswered es = Some r \<longrightarrow>
        executeCommand ''debug.breakWhenValueChanges'' (module_run es (module_initial bps))
          = (module_run es (module_initial bps))
              \<lparr>dataBreakpoints := dataBreakpoints (module_run es (module_initial bps)) @
                [\<lparr>bp_description = r_description r, bp_src_type = VariableSetType,
                  bp_src_dataId = r_dataId r, bp_canPersist = (r_canPersist r = Some True),
                  bp_accessTypes = r_accessTypes r, bp_accessType = WriteAccess\<rparr>]\<rparr>
        \<and> executeCommand ''debug.breakWhenValueIsAccessed'' (module_run es (module_initial bps))
          = (module_run es (module_initial bps))
              \<lparr>dataBreakpoints := dataBreakpoints (module_run es (module_initial bps)) @
                [\<lparr>bp_description = r_description r, bp_src_type = VariableSetType,
                  bp_src_dataId = r_dataId r, bp_canPersist = (r_canPersist r = Some True),
                  bp_accessTypes = r_accessTypes r, bp_accessType = ReadWriteAccess\<rparr>]\<rparr>
        \<and> executeCommand ''debug.breakWhenValueIsRead'' (module_run es (module_initial bps))
          = (module_run es (module_initial bps))
              \<lparr>dataBreakpoints := dataBreakpoints (module_run es (module_initial bps)) @
                [\<lparr>bp_description = r_description r, bp_src_type = VariableSetType,
                  bp_src_dataId = r_dataId r, bp_canPersist = (r_canPersist r = Some True),
                  bp_accessTypes = r_accessTypes r, bp_accessType = ReadAccess\<rparr>]\<rparr>)
   \<and> dataBreakpoints (module_step (OpenContextMenu session variable) m) = dataBreakpoints m"
proof (intro conjI impI)
  let ?m = "module_run es (module_initial bps)"
  show held: "dataBreakpointInfoResponse ?m = lastAnswered es"
    by (rule run_response_initial)
  show "dataBreakpoints (module_step (OpenContextMenu session variable) m) = dataBreakpoints m"
    by (cases session)
       (auto simp: getContextForVariableMenuWithDataAccess_def
          getContextForVariableMenuBase_def Let_def split: sum.splits)
  {
    assume "lastAnswered es = None"
    then have n: "dataBreakpointInfoResponse ?m = None" using held by simp
    show "executeCommand ''debug.breakWhenValueChanges'' ?m = ?m"
      and "executeCommand ''debug.breakWhenValueIsAccessed'' ?m = ?m"
      and "executeCommand ''debug.breakWhenValueIsRead'' ?m = ?m"
      using commands_idle [OF n] by simp_all
  }
  {
    assume "lastAnswered es = Some r"
    then have n: "dataBreakpointInfoResponse ?m = Some r" using held by simp
    show "executeCommand ''debug.breakWhenValueChanges'' ?m
          = ?m\<lparr>dataBreakpoints := dataBreakpoints ?m @
                [\<lparr>bp_description = r_description r, bp_src_type = VariableSetType,
                  bp_src_dataId = r_dataId r, bp_canPersist = (r_canPersist r = Some True),
                  bp_accessTypes = r_accessTypes r, bp_accessType = WriteAccess\<rparr>]\<rparr>"
      and "executeCommand ''debug.breakWhenValueIsAccessed'' ?m
          = ?m\<lparr>dataBreakpoints := dataBreakpoints ?m @
                [\<lparr>bp_description = r_description r, bp_src_type = VariableSetType,
                  bp_src_dataId = r_dataId r, bp_canPersist = (r_canPersist r = Some True),
                  bp_accessTypes = r_accessTypes r, bp_accessType = ReadWriteAccess\<rparr>]\<rparr>"
      and "executeCommand ''debug.breakWhenValueIsRead'' ?m
          = ?m\<lparr>dataBreakpoints := dataBreakpoints ?m @
                [\<lparr>bp_description = r_description r, bp_src_type = VariableSetType,
                  bp_src_dataId = r_dataId r, bp_canPersist = (r_canPersist r = Some True),
                  bp_accessTypes = r_accessTypes r, bp_accessType = ReadAccess\<rparr>]\<rparr>"
      using commands_add [OF n] by simp_all
  }
qed

lemmas module_defs = module_initial_def lastAnswered_def lastOpened_def ex_history_def
  ex_supporting_def ex_unsupporting_def ex_failing_def ex_response_def ex_variable_def
  ex_other_variable_def getContextForVariableMenuWithDataAccess_def
  getContextForVariableMenuBase_def truthy_bool_def truthy_string_def Let_def

theorem data_breakpoint_commands_last_answered_witness:
  "lastAnswered ex_history = Some ex_response
   \<and> dataBreakpoints (executeCommand ''debug.breakWhenValueIsRead''
        (module_run ex_history (module_initial [])))
     = [\<lparr>bp_description = ''x'', bp_src_type = VariableSetType, bp_src_dataId = Some ''x@10'',
         bp_canPersist = False, bp_accessTypes = Some [ReadAccess, WriteAccess],
         bp_accessType = ReadAccess\<rparr>]
   \<and> lastAnswered [OpenContextMenu (Some ex_failing) ex_variable,
        OpenContextMenu None ex_other_variable] = None
   \<and> executeCommand ''debug.breakWhenValueChanges''
        (module_run [OpenContextMenu (Some ex_failing) ex_variable,
           OpenContextMenu None ex_other_variable] (module_initial []))
     = module_run [OpenContextMenu (Some ex_failing) ex_variable,
           OpenContextMenu None ex_other_variable] (module_initial [])
   \<and> variableInternalContext (module_run [OpenContextMenu (Some ex_failing) ex_variable]
        (module_initial [])) = None"
  using data_breakpoint_commands_last_answered [where es = ex_history and bps = "[]"
      and r = ex_response and session = None and variable = ex_variable
      and m = "module_initial []"]
    data_breakpoint_commands_last_answered
      [where es = "[OpenContextMenu (Some ex_failing) ex_variable,
           OpenContextMenu None ex_other_variable]" and bps = "[]"
       and r = ex_response and session = None and variable = ex_variable
       and m = "module_initial []"]
  by (simp add: module_defs)

text \<open>
  C7, as first stated, fails. A menu is opened on a variable of a session that supports
  data breakpoints, then on a variable of a session that does not: the menu opened last
  captured no response, and still \<^verbatim>\<open>debug.breakWhenValueChanges\<close> adds a breakpoint,
  built from the response of the first variable.
\<close>

theorem last_opened_menu_counterexample:
  "lastOpened ex_history = None
   \<and> executeCommand ''debug.breakWhenValueChanges'' (module_run ex_history (module_initial []))
      \<noteq> module_run ex_history (module_initial [])
   \<and> dataBreakpoints (executeCommand ''debug.breakWhenValueChanges''
        (module_run ex_history (module_initial [])))
     = [\<lparr>bp_description = ''x'', bp_src_type = VariableSetType, bp_src_dataId = Some ''x@10'',
         bp_canPersist = False, bp_accessTypes = Some [ReadAccess, WriteAccess],
         bp_accessType = WriteAccess\<rparr>]"
  by (simp add: module_defs command_defs)

section \<open>Properties of the delegate and the data source\<close>

lemmas renderer_ids =
  ScopesRenderer_ID_def ScopeErrorRenderer_ID_def VisualizedVariableRenderer_ID_def
  VariablesRenderer_ID_def

text \<open>
  C5. \<open>getTemplateId\<close> is defined on every element and returns one of four pairwise
  different renderer ids, chosen by the runtime class: the error-scope id for an
  \<open>ErrorScope\<close>, the scope id for any other \<open>Scope\<close>, the visualizer id for a
  \<open>VisualizedExpression\<close>, the variable id for everything else. An \<open>ErrorScope\<close> is also
  an instance of \<open>Scope\<close>, and it still gets the error-scope id: the first test wins.
\<close>

theorem getTemplateId_dispatch:
  "(instanceOf e ErrorScopeClass \<longrightarrow> getTemplateId e = ScopeErrorRenderer_ID)
   \<and> (instanceOf e ScopeClass \<and> \<not> instanceOf e ErrorScopeClass
        \<longrightarrow> getTemplateId e = ScopesRenderer_ID)
   \<and> (instanceOf e VisualizedExpressionClass \<longrightarrow> getTemplateId e = VisualizedVariableRenderer_ID)
   \<and> (\<not> instanceOf e ErrorScopeClass \<and> \<not> instanceOf e ScopeClass
        \<and> \<not> instanceOf e VisualizedExpressionClass
        \<longrightarrow> getTemplateId e = VariablesRenderer_ID)
   \<and> (instanceOf e ErrorScopeClass
        \<longrightarrow> instanceOf e ScopeClass \<and> getTemplateId e \<noteq> ScopesRenderer_ID)
   \<and> getTemplateId e \<in> {ScopeErrorRenderer_ID, ScopesRenderer_ID,
        VisualizedVariableRenderer_ID, VariablesRenderer_ID}
   \<and> distinct [ScopeErrorRenderer_ID, ScopesRenderer_ID,
        VisualizedVariableRenderer_ID, VariablesRenderer_ID]"
  by (cases "el_class e") (simp_all add: getTemplateId_def instanceOf_def renderer_ids)

theorem getTemplateId_dispatch_witness:
  "instanceOf (Element ErrorScopeClass 1 ''scope:Locals:0'' False False []) ErrorScopeClass
   \<and> instanceOf (Element ErrorScopeClass 1 ''scope:Locals:0'' False False []) ScopeClass
   \<and> getTemplateId (Element ErrorScopeClass 1 ''scope:Locals:0'' False False []) = ''scopeError''
   \<and> getTemplateId (Element ScopeClass 2 ''scope:Locals:0'' True False []) = ''scope''
   \<and> getTemplateId (Element VisualizedExpressionClass 3 ''v'' False False []) = ''viz''
   \<and> getTemplateId (Element VariableClass 4 ''x'' False False []) = ''variable''
   \<and> getTemplateId (Element ExpressionClass 5 ''w'' False False []) = ''variable''"
  using getTemplateId_dispatch [of "Element ErrorScopeClass 1 ''scope:Locals:0'' False False []"]
    getTemplateId_dispatch [of "Element ScopeClass 2 ''scope:Locals:0'' True False []"]
    getTemplateId_dispatch [of "Element VisualizedExpressionClass 3 ''v'' False False []"]
    getTemplateId_dispatch [of "Element VariableClass 4 ''x'' False False []"]
    getTemplateId_dispatch [of "Element ExpressionClass 5 ''w'' False False []"]
  by (simp add: instanceOf_def renderer_ids)







end
